theory Spec2Isabelle
  imports Complex_Main "HOL-Library.Sublist"
begin

section \<open>Data model\<close>

text \<open>
  A pandas cell. \<open>NaN\<close> is the missing marker of ordinary columns, \<open>NaT\<close> the missing
  marker of date-time columns; \<open>pd.isna\<close> holds of both. Text is ASCII.
\<close>

type_synonym date = "nat \<times> nat \<times> nat"

type_synonym datetime = "date \<times> nat \<times> nat \<times> nat"

datatype cell = NaN | NaT | Str string | PyInt int | PyFloat real | PyDate date

fun isna :: "cell \<Rightarrow> bool" where
  "isna NaN = True"
| "isna NaT = True"
| "isna _ = False"

text \<open>
  A DataFrame: the ordered column labels and the rows in index order, each row holding
  one cell per column. The labels are distinct, and a frame without columns has no rows,
  as every frame read from a file.
\<close>

record dataframe =
  columns :: "string list"
  rows :: "cell list list"

definition wf :: "dataframe \<Rightarrow> bool" where
  "wf df \<longleftrightarrow>
     distinct (columns df) \<and> (\<forall>r \<in> set (rows df). length r = length (columns df))
     \<and> (columns df = [] \<longrightarrow> rows df = [])"

definition nrows :: "dataframe \<Rightarrow> nat" where
  "nrows df = length (rows df)"

text \<open>
  Exceptions are values: a call that can raise returns \<open>Inl\<close> of the exception or \<open>Inr\<close>
  of its result. \<open>ReError\<close> is \<open>re.error\<close>.
\<close>

datatype py_error = TypeError | AttributeError | ValueError | ReError

text \<open>
  What a call leaves behind where a statement below speaks of the console: the value
  returned and the lines printed.
\<close>

record 'a call =
  returned :: 'a
  printed :: "string list"

fun index_of :: "'a \<Rightarrow> 'a list \<Rightarrow> nat" where
  "index_of x [] = 0"
| "index_of x (y # ys) = (if x = y then 0 else Suc (index_of x ys))"

text \<open>\<open>df[f]\<close> for a label \<open>f\<close> of the frame, and \<open>row[f]\<close> for one of its rows.\<close>

definition row_get :: "dataframe \<Rightarrow> cell list \<Rightarrow> string \<Rightarrow> cell" where
  "row_get df r f = r ! index_of f (columns df)"

definition getcol :: "dataframe \<Rightarrow> string \<Rightarrow> cell list" where
  "getcol df f = map (\<lambda>r. row_get df r f) (rows df)"

text \<open>
  \<open>df[f] = vs\<close> with one value per row: an existing column is overwritten in place, a
  new label is appended as the last column.
\<close>

definition setcol :: "dataframe \<Rightarrow> string \<Rightarrow> cell list \<Rightarrow> dataframe" where
  "setcol df f vs =
     (if f \<in> set (columns df)
      then df\<lparr>rows := map (\<lambda>(r, v). r[index_of f (columns df) := v]) (zip (rows df) vs)\<rparr>
      else df\<lparr>columns := columns df @ [f],
              rows := map (\<lambda>(r, v). r @ [v]) (zip (rows df) vs)\<rparr>)"

section \<open>Text\<close>

text \<open>
  Character classes of Python on ASCII text: \<open>str.isspace\<close> (also the class \<open>\s\<close> of
  \<open>re\<close>), the digits \<open>\d\<close>, the letters, and the word characters \<open>\w\<close>.
\<close>

definition is_space :: "char \<Rightarrow> bool" where
  "is_space c \<longleftrightarrow>
     c \<in> set [CHR 0x09, CHR 0x0A, CHR 0x0B, CHR 0x0C, CHR 0x0D,
              CHR 0x1C, CHR 0x1D, CHR 0x1E, CHR 0x1F, CHR 0x20]"

definition is_digit :: "char \<Rightarrow> bool" where
  "is_digit c \<longleftrightarrow> c \<in> set ''0123456789''"

definition lowers :: string where
  "lowers = ''abcdefghijklmnopqrstuvwxyz''"

definition uppers :: string where
  "uppers = ''ABCDEFGHIJKLMNOPQRSTUVWXYZ''"

definition is_lower :: "char \<Rightarrow> bool" where
  "is_lower c \<longleftrightarrow> c \<in> set lowers"

definition is_upper :: "char \<Rightarrow> bool" where
  "is_upper c \<longleftrightarrow> c \<in> set uppers"

definition is_word :: "char \<Rightarrow> bool" where
  "is_word c \<longleftrightarrow> is_lower c \<or> is_upper c \<or> is_digit c \<or> c = CHR ''_''"

definition to_lower :: "char \<Rightarrow> char" where
  "to_lower c = (case map_of (zip uppers lowers) c of Some l \<Rightarrow> l | None \<Rightarrow> c)"

definition to_upper :: "char \<Rightarrow> char" where
  "to_upper c = (case map_of (zip lowers uppers) c of Some u \<Rightarrow> u | None \<Rightarrow> c)"

text \<open>\<open>s.strip()\<close>.\<close>

definition strip :: "string \<Rightarrow> string" where
  "strip s = rev (dropWhile is_space (rev (dropWhile is_space s)))"

text \<open>
  \<open>s.title()\<close>: a letter that follows a letter is lower-cased, any other letter is
  upper-cased. The flag says whether the previous character was a letter.
\<close>

fun title_from :: "bool \<Rightarrow> string \<Rightarrow> string" where
  "title_from prev [] = []"
| "title_from prev (c # cs) =
     (if is_lower c then (if prev then c else to_upper c) # title_from True cs
      else if is_upper c then (if prev then to_lower c else c) # title_from True cs
      else c # title_from False cs)"

definition title :: "string \<Rightarrow> string" where
  "title s = title_from False s"

text \<open>Decimal text of an integer, as \<open>str\<close> prints it.\<close>

fun show_nat :: "nat \<Rightarrow> string" where
  "show_nat n =
     (if n < 10 then [''0123456789'' ! n]
      else show_nat (n div 10) @ [''0123456789'' ! (n mod 10)])"

declare show_nat.simps [simp del]

definition show_int :: "int \<Rightarrow> string" where
  "show_int i = (if i < 0 then CHR ''-'' # show_nat (nat (- i)) else show_nat (nat i))"

definition zero_pad :: "nat \<Rightarrow> string \<Rightarrow> string" where
  "zero_pad w s = replicate (w - length s) CHR ''0'' @ s"

text \<open>
  \<open>str(x)\<close> of a cell. The text of a floating-point number is what the parameter
  \<open>fstr\<close> gives; a date prints in ISO form.
\<close>

fun py_str :: "(real \<Rightarrow> string) \<Rightarrow> cell \<Rightarrow> string" where
  "py_str fstr NaN = ''nan''"
| "py_str fstr NaT = ''NaT''"
| "py_str fstr (Str s) = s"
| "py_str fstr (PyInt i) = show_int i"
| "py_str fstr (PyFloat x) = fstr x"
| "py_str fstr (PyDate (y, m, d)) =
     zero_pad 4 (show_nat y) @ ''-'' @ zero_pad 2 (show_nat m) @ ''-'' @ zero_pad 2 (show_nat d)"

section \<open>Regular expressions of the source\<close>

text \<open>
  Every pattern of the source is a sequence of single-character items, each a character
  class taken once, optionally, or repeated. \<open>fm p s\<close> says that the pattern matches the
  whole of \<open>s\<close>.
\<close>

datatype item = One "char \<Rightarrow> bool" | Opt "char \<Rightarrow> bool" | Star "char \<Rightarrow> bool" | Plus "char \<Rightarrow> bool"

fun fm :: "item list \<Rightarrow> string \<Rightarrow> bool" where
  "fm [] s = (s = [])"
| "fm (One c # p) [] = False"
| "fm (One c # p) (x # xs) = (c x \<and> fm p xs)"
| "fm (Opt c # p) [] = fm p []"
| "fm (Opt c # p) (x # xs) = ((c x \<and> fm p xs) \<or> fm p (x # xs))"
| "fm (Star c # p) [] = fm p []"
| "fm (Star c # p) (x # xs) = ((c x \<and> fm (Star c # p) xs) \<or> fm p (x # xs))"
| "fm (Plus c # p) [] = False"
| "fm (Plus c # p) (x # xs) = (c x \<and> fm (Star c # p) xs)"

text \<open>
  A literal text. Under \<open>re.IGNORECASE\<close> a letter matches in either case.
\<close>

definition lit :: "string \<Rightarrow> item list" where
  "lit t = map (\<lambda>c. One (\<lambda>x. x = c)) t"

definition lit_ci :: "string \<Rightarrow> item list" where
  "lit_ci t = map (\<lambda>c. One (\<lambda>x. to_lower x = to_lower c)) t"

text \<open>
  The patterns below that end in \<open>\s*$\<close> are searched in a text. \<open>$\<close> holds at the end
  of the text and before a newline that ends it; the newline is white space and \<open>\s*\<close>
  is greedy, so a match always runs to the end of the text. \<open>re.search\<close> takes the
  leftmost start: the first \<open>i\<close> such that the pattern (without \<open>$\<close>) matches the whole
  of \<open>s[i:]\<close>. \<open>re.sub\<close> with an empty replacement then leaves \<open>s[:i]\<close>, and leaves
  \<open>s\<close> when there is no match.
\<close>

definition re_search_tail :: "item list \<Rightarrow> string \<Rightarrow> nat option" where
  "re_search_tail p s = find (\<lambda>i. fm p (drop i s)) [0..<Suc (length s)]"

definition re_sub_tail :: "item list \<Rightarrow> string \<Rightarrow> string" where
  "re_sub_tail p s = (case re_search_tail p s of None \<Rightarrow> s | Some i \<Rightarrow> take i s)"

section \<open>Text normalisation of columns\<close>

text \<open>The results of a row-wise or element-wise function: the first exception raised ends the call.\<close>

fun collect :: "('e + 'a) list \<Rightarrow> 'e + 'a list" where
  "collect [] = Inr []"
| "collect (x # xs) =
     (case x of
        Inl e \<Rightarrow> Inl e
      | Inr v \<Rightarrow> (case collect xs of Inl e \<Rightarrow> Inl e | Inr vs \<Rightarrow> Inr (v # vs)))"

text \<open>
  A method of the \<open>.str\<close> accessor acts on the text cells of a column; every other cell
  becomes \<open>NaN\<close>.
\<close>

fun str_method :: "(string \<Rightarrow> cell) \<Rightarrow> cell \<Rightarrow> cell" where
  "str_method f (Str s) = f s"
| "str_method f c = NaN"

fun is_str :: "cell \<Rightarrow> bool" where
  "is_str (Str s) = True"
| "is_str c = False"

fun is_num :: "cell \<Rightarrow> bool" where
  "is_num (PyInt i) = True"
| "is_num (PyFloat x) = True"
| "is_num c = False"

fun is_date :: "cell \<Rightarrow> bool" where
  "is_date (PyDate d) = True"
| "is_date c = False"

text \<open>
  The column's dtype is the one pandas infers from its cells. The \<open>.str\<close> accessor is
  granted on a column without cells, on a column that holds a text cell, and on an
  object column that mixes dates with numbers; a column of numbers, of dates or of
  missing markers only has a dtype without the accessor, and \<open>.str\<close> raises
  \<open>AttributeError\<close>.
\<close>

definition str_accessor :: "cell list \<Rightarrow> bool" where
  "str_accessor col \<longleftrightarrow>
     col = [] \<or> list_ex is_str col \<or> (list_ex is_date col \<and> list_ex is_num col)"

subsection \<open>standardize_suburb_names\<close>

text \<open>\<open>x.title() if pd.notna(x) else x\<close>; a cell that is neither missing nor text has no \<open>title\<close>.\<close>

definition title_cell :: "cell \<Rightarrow> py_error + cell" where
  "title_cell x =
     (if \<not> isna x then (case x of Str s \<Rightarrow> Inr (Str (title s)) | _ \<Rightarrow> Inl AttributeError)
      else Inr x)"

definition standardize_suburb_names :: "dataframe \<Rightarrow> py_error + dataframe" where
  "standardize_suburb_names df =
     (if ''Suburb'' \<in> set (columns df)
      then (case collect (map title_cell (getcol df ''Suburb'')) of
              Inl e \<Rightarrow> Inl e
            | Inr vs \<Rightarrow> Inr (setcol df ''Suburb'' vs))
      else Inr df)"

subsection \<open>standardize_address_state\<close>

text \<open>
  \<open>re.sub\<close> of a literal, not empty text, ignoring case: the occurrences are replaced
  from left to right, the search resuming after each.
\<close>

function replace_ci :: "string \<Rightarrow> string \<Rightarrow> string \<Rightarrow> string" where
  "replace_ci pat repl s =
     (if s = [] \<or> pat = [] then s
      else if fm (lit_ci pat) (take (length pat) s)
           then repl @ replace_ci pat repl (drop (length pat) s)
           else hd s # replace_ci pat repl (tl s))"
  by pat_completeness auto
termination
  by (relation "measure (\<lambda>(pat, repl, s). length s)") auto

definition standardize_address_state :: "dataframe \<Rightarrow> py_error + dataframe" where
  "standardize_address_state df =
     (if ''Address'' \<in> set (columns df)
      then (if str_accessor (getcol df ''Address'')
            then Inr (setcol df ''Address''
                   (map (str_method (\<lambda>s. Str (replace_ci ''NEW SOUTH WALES'' ''NSW'' s)))
                      (getcol df ''Address'')))
            else Inl AttributeError)
      else Inr df)"

subsection \<open>clean_address\<close>

text \<open>
  The five patterns: \<open>\s+PC\s*$\<close> with the row's postcode text, \<open>\s*,\s*$\<close>,
  \<open>(\w{3})\s*$\<close>, \<open>\s+\w{3}\s*$\<close>, and \<open>\s*,?\s*SUB\s*$\<close> with the row's escaped
  suburb text.
\<close>

definition pat_postcode :: "string \<Rightarrow> item list" where
  "pat_postcode pc = Plus is_space # lit_ci pc @ [Star is_space]"

definition pat_comma :: "item list" where
  "pat_comma = [Star is_space, One (\<lambda>x. x = CHR '',''), Star is_space]"

definition pat_state :: "item list" where
  "pat_state = [One is_word, One is_word, One is_word, Star is_space]"

definition pat_state_tail :: "item list" where
  "pat_state_tail = [Plus is_space, One is_word, One is_word, One is_word, Star is_space]"

definition pat_suburb :: "string \<Rightarrow> item list" where
  "pat_suburb sb =
     [Star is_space, Opt (\<lambda>x. x = CHR '',''), Star is_space] @ lit_ci sb @ [Star is_space]"

text \<open>
  The postcode text is spliced into its pattern unescaped, so \<open>re\<close> reads it as a
  pattern. It stands for itself when it has none of the special characters. When it has
  one (the text \<open>2000.0\<close> of a floating-point postcode has the dot), the outcome of
  \<open>re.sub(pattern, '', subject, flags=re.IGNORECASE)\<close> is what the library gives: the
  parameter \<open>resub\<close>, applied to the pattern text and the subject cell, yields the new
  text or the exception.
\<close>

definition regex_plain :: "string \<Rightarrow> bool" where
  "regex_plain t = list_all (\<lambda>c. c \<notin> set (CHR 0x5C # ''.^$*+?{}[]|()'')) t"

definition postcode_pattern_text :: "string \<Rightarrow> string" where
  "postcode_pattern_text pc =
     [CHR 0x5C, CHR ''s'', CHR ''+''] @ pc @ [CHR 0x5C, CHR ''s'', CHR ''*'', CHR ''$'']"

text \<open>
  The two row-wise functions. \<open>re.sub\<close> raises \<open>TypeError\<close> on an address that is not
  text.
\<close>

definition sub_postcode_cell ::
  "(real \<Rightarrow> string) \<Rightarrow> (string \<Rightarrow> cell \<Rightarrow> py_error + string) \<Rightarrow> cell \<Rightarrow> cell \<Rightarrow> py_error + cell" where
  "sub_postcode_cell fstr resub postcode address =
     (let pc = py_str fstr postcode
      in if regex_plain pc
         then (case address of
                 Str a \<Rightarrow> Inr (Str (re_sub_tail (pat_postcode pc) a))
               | _ \<Rightarrow> Inl TypeError)
         else (case resub (postcode_pattern_text pc) address of
                 Inl e \<Rightarrow> Inl e
               | Inr s \<Rightarrow> Inr (Str s)))"

definition sub_postcode ::
  "(real \<Rightarrow> string) \<Rightarrow> (string \<Rightarrow> cell \<Rightarrow> py_error + string) \<Rightarrow> dataframe \<Rightarrow> cell list \<Rightarrow> py_error + cell" where
  "sub_postcode fstr resub df row =
     sub_postcode_cell fstr resub (row_get df row ''Postcode'') (row_get df row ''Address'')"

definition sub_suburb_cell :: "(real \<Rightarrow> string) \<Rightarrow> cell \<Rightarrow> cell \<Rightarrow> py_error + cell" where
  "sub_suburb_cell fstr suburb address =
     (case address of
        Str a \<Rightarrow> Inr (Str (re_sub_tail (pat_suburb (py_str fstr suburb)) a))
      | _ \<Rightarrow> Inl TypeError)"

definition sub_suburb :: "(real \<Rightarrow> string) \<Rightarrow> dataframe \<Rightarrow> cell list \<Rightarrow> py_error + cell" where
  "sub_suburb fstr df row =
     sub_suburb_cell fstr (row_get df row ''Suburb'') (row_get df row ''Address'')"

definition str_replace :: "item list \<Rightarrow> cell \<Rightarrow> cell" where
  "str_replace p = str_method (\<lambda>s. Str (re_sub_tail p s))"

definition str_strip :: "cell \<Rightarrow> cell" where
  "str_strip = str_method (\<lambda>s. Str (strip s))"

definition str_extract :: "cell \<Rightarrow> cell" where
  "str_extract =
     str_method (\<lambda>s. case re_search_tail pat_state s of
                        None \<Rightarrow> NaN
                      | Some i \<Rightarrow> Str (take 3 (drop i s)))"

text \<open>
  \<open>clean_address\<close>, statement by statement. On a frame without rows
  \<open>df.apply(f, axis=1)\<close> returns a frame, and assigning it to the one column
  \<open>df['Address']\<close> raises \<open>ValueError\<close>. On a frame with rows the first \<open>apply\<close>
  leaves text in every address, so the \<open>.str\<close> accessor is granted afterwards.
\<close>

definition clean_address ::
  "(real \<Rightarrow> string) \<Rightarrow> (string \<Rightarrow> cell \<Rightarrow> py_error + string) \<Rightarrow> dataframe \<Rightarrow> py_error + dataframe" where
  "clean_address fstr resub df =
     (if ''Address'' \<in> set (columns df) \<and> ''Postcode'' \<in> set (columns df)
         \<and> ''Suburb'' \<in> set (columns df)
      then
        if rows df = [] then Inl ValueError
        else
          (case collect (map (sub_postcode fstr resub df) (rows df)) of
             Inl e \<Rightarrow> Inl e
           | Inr a1 \<Rightarrow>
               let df1 = setcol df ''Address'' a1;
                   df2 = setcol df1 ''Address'' (map (str_replace pat_comma) (getcol df1 ''Address''));
                   df3 = setcol df2 ''Address'' (map str_strip (getcol df2 ''Address''));
                   df4 = setcol df3 ''State'' (map str_extract (getcol df3 ''Address''));
                   df5 = setcol df4 ''Address''
                           (map (str_replace pat_state_tail) (getcol df4 ''Address''));
                   df6 = setcol df5 ''Address'' (map str_strip (getcol df5 ''Address''))
               in (case collect (map (sub_suburb fstr df6) (rows df6)) of
                     Inl e \<Rightarrow> Inl e
                   | Inr a7 \<Rightarrow>
                       let df7 = setcol df6 ''Address'' a7;
                           df8 = setcol df7 ''Address'' (map str_strip (getcol df7 ''Address''))
                       in Inr df8))
      else Inr df)"

section \<open>remove_duplicates\<close>

text \<open>
  What \<open>DataFrame.duplicated()\<close> compares. With several columns each column is
  factorized and every missing marker gets the same code; with one column the values are
  compared as Python objects, where \<open>NaN\<close> equals \<open>NaN\<close> and \<open>NaT\<close> equals \<open>NaT\<close> but
  not each other. In both cases an integer equals the floating-point number of the same
  value. The flag says that the frame has one column.
\<close>

datatype key = KMissing | KNaT | KText string | KNum real | KDay date

fun cell_key :: "bool \<Rightarrow> cell \<Rightarrow> key" where
  "cell_key one NaN = KMissing"
| "cell_key one NaT = (if one then KNaT else KMissing)"
| "cell_key one (Str s) = KText s"
| "cell_key one (PyInt i) = KNum (of_int i)"
| "cell_key one (PyFloat x) = KNum x"
| "cell_key one (PyDate d) = KDay d"

definition row_key :: "dataframe \<Rightarrow> cell list \<Rightarrow> key list" where
  "row_key df r = map (cell_key (length (columns df) = 1)) r"

text \<open>
  \<open>duplicated()\<close> with the default \<open>keep='first'\<close>: a row is flagged when a row with the
  same key was seen before it.
\<close>

fun duplicated :: "'a list \<Rightarrow> 'a list \<Rightarrow> bool list" where
  "duplicated seen [] = []"
| "duplicated seen (x # xs) = (x \<in> set seen) # duplicated (x # seen) xs"

text \<open>\<open>df.drop_duplicates()\<close> keeps the rows that are not flagged, in their order.\<close>

definition drop_duplicates :: "dataframe \<Rightarrow> dataframe" where
  "drop_duplicates df =
     df\<lparr>rows := map fst (filter (\<lambda>(r, d). \<not> d)
                   (zip (rows df) (duplicated [] (map (row_key df) (rows df)))))\<rparr>"

text \<open>
  \<open>remove_duplicates\<close> prints the number of removed rows and returns the new frame.
\<close>

definition remove_duplicates :: "dataframe \<Rightarrow> dataframe call" where
  "remove_duplicates df =
     (let before = int (nrows df);
          df' = drop_duplicates df;
          after = int (nrows df')
      in \<lparr>returned = df',
          printed = [''Removed '' @ show_int (before - after) @ '' duplicate rows'']\<rparr>)"




section \<open>clean_datetime_fields\<close>

text \<open>
  \<open>pd.to_datetime(col, errors='coerce')\<close> is a library function and a parameter \<open>td\<close>
  here: it maps a column to one time stamp per cell, with none where the cell does not
  parse (\<open>NaT\<close>), or it raises. \<open>.dt.date\<close> keeps the calendar date of a time stamp and
  leaves \<open>NaT\<close>.
\<close>

fun dt_date :: "datetime option \<Rightarrow> cell" where
  "dt_date None = NaT"
| "dt_date (Some (d, tod)) = PyDate d"

fun clean_datetime_fields ::
  "(cell list \<Rightarrow> py_error + datetime option list) \<Rightarrow> dataframe \<Rightarrow> string list
     \<Rightarrow> py_error + dataframe" where
  "clean_datetime_fields td df [] = Inr df"
| "clean_datetime_fields td df (field # rest) =
     (if field \<in> set (columns df)
      then (case td (getcol df field) of
              Inl e \<Rightarrow> Inl e
            | Inr ts \<Rightarrow> clean_datetime_fields td (setcol df field (map dt_date ts)) rest)
      else clean_datetime_fields td df rest)"

text \<open>
  The library function on the two columns of the examples below: a time stamp with a
  cell that does not parse, and two time stamps with different UTC offsets, on which it
  raises \<open>ValueError\<close> although \<open>errors='coerce'\<close> is given. On every other column this
  instance is arbitrary, and no statement uses it there.
\<close>

definition to_datetime_observed :: "cell list \<Rightarrow> py_error + datetime option list" where
  "to_datetime_observed col =
     (if col = [Str ''2024-05-01 13:45:00'', Str ''not-a-date'']
      then Inr [Some ((2024, 5, 1), 13, 45, 0), None]
      else if col = [Str ''2024-05-01 13:45:00+10:00'', Str ''2024-05-02 09:30:00+11:00'']
      then Inl ValueError
      else Inl ValueError)"

section \<open>Auxiliary notions for the proofs\<close>

text \<open>The rows whose key under \<open>k\<close> was not seen before, computed directly.\<close>

fun select_first :: "('a \<Rightarrow> 'k) \<Rightarrow> 'k list \<Rightarrow> 'a list \<Rightarrow> 'a list" where
  "select_first k seen [] = []"
| "select_first k seen (x # xs) =
     (if k x \<in> set seen then select_first k seen xs else x # select_first k (k x # seen) xs)"

text \<open>
  \<open>frame_ext A df df'\<close>: the frame \<open>df'\<close> has the rows of \<open>df\<close> in number, at least its
  columns, and the same cells in every column of \<open>df\<close> whose label is not in \<open>A\<close>.
\<close>

definition frame_ext :: "string set \<Rightarrow> dataframe \<Rightarrow> dataframe \<Rightarrow> bool" where
  "frame_ext A df df' \<longleftrightarrow>
     wf df' \<and> nrows df' = nrows df \<and> set (columns df) \<subseteq> set (columns df')
     \<and> (\<forall>f \<in> set (columns df). f \<notin> A \<longrightarrow> getcol df' f = getcol df f)"

text \<open>
  Instances of the two library parameters of \<open>clean_address\<close> for tables that hold no
  floating-point cell and no postcode text with a special character: on such tables
  neither is called.
\<close>

definition no_floats :: "real \<Rightarrow> string" where
  "no_floats x = []"

definition no_special :: "string \<Rightarrow> cell \<Rightarrow> py_error + string" where
  "no_special pattern subject = Inl ReError"

text \<open>Small tables used to instantiate the statements below.\<close>

definition sample_frame :: dataframe where
  "sample_frame =
     \<lparr>columns = [''Address'', ''Postcode'', ''Suburb'', ''PriceUpdatedDate''],
      rows = [[Str ''12 Main St, Sydney NSW 2000'', PyInt 2000, Str ''SYDNEY'',
               Str ''2024-05-01 13:45:00''],
              [Str ''7 High Rd ALBURY NSW 2640'', PyInt 2640, Str ''Albury'',
               Str ''not-a-date'']]\<rparr>"

definition sample_cleaned :: dataframe where
  "sample_cleaned =
     \<lparr>columns = [''Address'', ''Postcode'', ''Suburb'', ''PriceUpdatedDate'', ''State''],
      rows = [[Str ''12 Main St'', PyInt 2000, Str ''SYDNEY'', Str ''2024-05-01 13:45:00'',
               Str ''NSW''],
              [Str ''7 High Rd'', PyInt 2640, Str ''Albury'', Str ''not-a-date'',
               Str ''NSW'']]\<rparr>"

definition sample_dated :: dataframe where
  "sample_dated =
     \<lparr>columns = [''Address'', ''Postcode'', ''Suburb'', ''PriceUpdatedDate''],
      rows = [[Str ''12 Main St, Sydney NSW 2000'', PyInt 2000, Str ''SYDNEY'',
               PyDate (2024, 5, 1)],
              [Str ''7 High Rd ALBURY NSW 2640'', PyInt 2640, Str ''Albury'', NaT]]\<rparr>"


text \<open>
  Notions used to state what \<open>clean_address\<close> computes row by row. \<open>address_after_strips\<close>
  is the address text of a row after the postcode strip, the comma strip and the trim.
  \<open>last3_state\<close> and \<open>last3_removed\<close> describe the state extraction and the state
  removal on such a text: the state is the last three characters when they are word
  characters; they are removed, with the white space before them, when white space
  precedes them.
\<close>

fun outr :: "'e + cell \<Rightarrow> cell" where
  "outr (Inr c) = c"
| "outr (Inl e) = NaN"

fun text_of :: "cell \<Rightarrow> string" where
  "text_of (Str s) = s"
| "text_of c = []"

definition address_after_strips :: "(real \<Rightarrow> string) \<Rightarrow> dataframe \<Rightarrow> cell list \<Rightarrow> string" where
  "address_after_strips fstr df row =
     strip (re_sub_tail pat_comma
       (re_sub_tail (pat_postcode (py_str fstr (row_get df row ''Postcode'')))
          (text_of (row_get df row ''Address''))))"

definition last3_state :: "string \<Rightarrow> cell" where
  "last3_state a =
     (if 3 \<le> length a \<and> list_all is_word (drop (length a - 3) a)
      then Str (drop (length a - 3) a) else NaN)"

definition last3_removed :: "string \<Rightarrow> string" where
  "last3_removed a =
     (if 4 \<le> length a \<and> list_all is_word (drop (length a - 3) a)
         \<and> is_space (a ! (length a - 4))
      then rev (dropWhile is_space (rev (take (length a - 3) a))) else a)"

text \<open>
  The reading of the specification: the last token of a text delimited by white space,
  and the state it would give, a token of exactly three letters.
\<close>

definition spec_final_token :: "string \<Rightarrow> string" where
  "spec_final_token a = rev (takeWhile (\<lambda>c. \<not> is_space c) (rev a))"

definition spec_state :: "string \<Rightarrow> cell" where
  "spec_state a =
     (let t = spec_final_token a
      in if length t = 3 \<and> list_all (\<lambda>c. is_lower c \<or> is_upper c) t then Str t else NaN)"

section \<open>Properties of deduplication\<close>

lemma length_duplicated [simp]: "length (duplicated seen xs) = length xs"
  by (induction xs arbitrary: seen) auto

lemma select_first_set_cong: "set s = set t \<Longrightarrow> select_first k s xs = select_first k t xs"
proof (induction xs arbitrary: s t)
  case Nil
  show ?case by simp
next
  case (Cons x xs)
  have "set (k x # s) = set (k x # t)"
    using Cons.prems by simp
  then have "select_first k (k x # s) xs = select_first k (k x # t) xs"
    by (rule Cons.IH)
  moreover have "select_first k s xs = select_first k t xs"
    using Cons.prems by (rule Cons.IH)
  moreover have "k x \<in> set s \<longleftrightarrow> k x \<in> set t"
    using Cons.prems by simp
  ultimately show ?case by simp
qed

lemma kept_select_first:
  "map fst (filter (\<lambda>(r, d). \<not> d) (zip xs (duplicated seen (map k xs)))) = select_first k seen xs"
proof (induction xs arbitrary: seen)
  case Nil
  show ?case by simp
next
  case (Cons x xs)
  show ?case
  proof (cases "k x \<in> set seen")
    case True
    then have "set (k x # seen) = set seen" by auto
    then have "select_first k (k x # seen) xs = select_first k seen xs"
      by (rule select_first_set_cong)
    with True Cons [of "k x # seen"] show ?thesis by simp
  next
    case False
    with Cons [of "k x # seen"] show ?thesis by simp
  qed
qed

lemma rows_drop_duplicates:
  "rows (drop_duplicates df) = select_first (row_key df) [] (rows df)"
  by (simp add: drop_duplicates_def kept_select_first)

lemma columns_drop_duplicates [simp]: "columns (drop_duplicates df) = columns df"
  by (simp add: drop_duplicates_def)

lemma row_key_drop_duplicates [simp]: "row_key (drop_duplicates df) = row_key df"
  by (simp add: row_key_def fun_eq_iff)

lemma keys_select_first: "set (map k (select_first k seen xs)) = set (map k xs) - set seen"
  by (induction xs arbitrary: seen) auto

lemma distinct_select_first: "distinct (map k (select_first k seen xs))"
proof (induction xs arbitrary: seen)
  case Nil
  show ?case by simp
next
  case (Cons x xs)
  have "k x \<notin> set (map k (select_first k (k x # seen) xs))"
    by (simp only: keys_select_first) simp
  with Cons show ?case by simp
qed


lemma select_first_id:
  "distinct (map k ys) \<Longrightarrow> set (map k ys) \<inter> set seen = {} \<Longrightarrow> select_first k seen ys = ys"
  by (induction ys arbitrary: seen) auto

lemma select_first_idem: "select_first k [] (select_first k [] xs) = select_first k [] xs"
  by (rule select_first_id) (simp_all add: distinct_select_first)

lemma select_first_positions:
  "select_first k seen xs =
     map (\<lambda>i. xs ! i)
       (filter (\<lambda>i. k (xs ! i) \<notin> set seen \<union> set (map k (take i xs))) [0..<length xs])"
proof (induction xs arbitrary: seen)
  case Nil
  show ?case by simp
next
  case (Cons x xs)
  define P where "P = (\<lambda>i. k ((x # xs) ! i) \<notin> set seen \<union> set (map k (take i (x # xs))))"
  define Q where "Q = (\<lambda>i. k (xs ! i) \<notin> set (k x # seen) \<union> set (map k (take i xs)))"
  have up: "[0..<length (x # xs)] = 0 # map Suc [0..<length xs]"
    by (simp add: upt_conv_Cons map_Suc_upt del: upt_Suc)
  have PQ: "P (Suc i) = Q i" for i
    by (auto simp: P_def Q_def)
  have P0: "P 0 \<longleftrightarrow> k x \<notin> set seen"
    by (simp add: P_def)
  have tl: "map (\<lambda>i. (x # xs) ! i) (filter P (map Suc [0..<length xs]))
          = map (\<lambda>i. xs ! i) (filter Q [0..<length xs])"
    by (simp add: filter_map comp_def PQ)
  have ih: "select_first k (k x # seen) xs = map (\<lambda>i. xs ! i) (filter Q [0..<length xs])"
    unfolding Q_def by (rule Cons)
  have goal: "select_first k seen (x # xs) =
      map (\<lambda>i. (x # xs) ! i) (filter P (0 # map Suc [0..<length xs]))"
  proof (cases "k x \<in> set seen")
    case True
    then have "set (k x # seen) = set seen" by auto
    then have "select_first k (k x # seen) xs = select_first k seen xs"
      by (rule select_first_set_cong)
    with True ih tl P0 show ?thesis by simp
  next
    case False
    with ih tl P0 show ?thesis by simp
  qed
  then show ?case
    unfolding up P_def .
qed

lemma index_of_first: "i < length xs \<Longrightarrow> xs ! i \<notin> set (take i xs) \<Longrightarrow> index_of (xs ! i) xs = i"
proof (induction xs arbitrary: i)
  case Nil
  then show ?case by simp
next
  case (Cons x xs)
  then show ?case by (cases i) auto
qed

lemma select_first_first_seen:
  "map (\<lambda>r. index_of r xs) (select_first k [] xs) =
     filter (\<lambda>i. k (xs ! i) \<notin> set (map k (take i xs))) [0..<length xs]"
proof -
  define idx where "idx = filter (\<lambda>i. k (xs ! i) \<notin> set (map k (take i xs))) [0..<length xs]"
  have kf: "select_first k [] xs = map (\<lambda>i. xs ! i) idx"
    unfolding idx_def using select_first_positions [of k "[]" xs] by simp
  have "map (\<lambda>r. index_of r xs) (map (\<lambda>i. xs ! i) idx) = map (\<lambda>i. index_of (xs ! i) xs) idx"
    by (simp add: comp_def)
  also have "\<dots> = map (\<lambda>i. i) idx"
  proof (rule map_cong [OF refl])
    fix i assume "i \<in> set idx"
    then have i: "i < length xs" and n: "k (xs ! i) \<notin> set (map k (take i xs))"
      by (simp_all add: idx_def)
    from n have "xs ! i \<notin> set (take i xs)" by auto
    with i show "index_of (xs ! i) xs = i" by (rule index_of_first)
  qed
  also have "\<dots> = idx"
    by simp
  finally show ?thesis
    unfolding kf idx_def .
qed

lemma select_first_sorted_first_seen:
  "sorted_wrt (<) (map (\<lambda>r. index_of r xs) (select_first k [] xs))"
proof -
  have "sorted_wrt (<) (filter (\<lambda>i. k (xs ! i) \<notin> set (map k (take i xs))) [0..<length xs])"
    by (rule sorted_wrt_filter) simp
  then show ?thesis
    by (simp only: select_first_first_seen)
qed


lemma show_int_0: "show_int 0 = ''0''"
  by (simp add: show_int_def show_nat.simps)



text \<open>
  C5. Deduplication is idempotent: a second pass returns the same table and removes
  nothing. The kept rows stand in the order in which they are first seen in the input:
  their first positions in the input are strictly increasing.
\<close>

theorem remove_duplicates_idempotent:
  "returned (remove_duplicates (returned (remove_duplicates T))) = returned (remove_duplicates T)
   \<and> printed (remove_duplicates (returned (remove_duplicates T))) = [''Removed 0 duplicate rows'']
   \<and> sorted_wrt (<) (map (\<lambda>r. index_of r (rows T)) (rows (returned (remove_duplicates T))))"
proof -
  have f: "returned (remove_duplicates df) = drop_duplicates df" for df
    by (simp add: remove_duplicates_def Let_def)
  have rk: "row_key (T\<lparr>rows := xs\<rparr>) = row_key T" for xs
    by (simp add: row_key_def fun_eq_iff)
  have i: "drop_duplicates (drop_duplicates T) = drop_duplicates T"
    by (simp add: drop_duplicates_def kept_select_first select_first_idem rk)
  have s: "printed (remove_duplicates (drop_duplicates T)) = [''Removed 0 duplicate rows'']"
    by (simp add: remove_duplicates_def Let_def i show_int_0)
  show ?thesis
    unfolding f
    by (intro conjI i s) (simp add: rows_drop_duplicates select_first_sorted_first_seen)
qed

section \<open>The address example\<close>

text \<open>
  C1. On the row with Address "12 Main St NEW SOUTH WALES 2000", Postcode "2000" and
  Suburb "Sydney", \<open>standardize_address_state\<close> yields the address
  "12 Main St NSW 2000", and \<open>clean_address\<close> on that row then yields the address
  "12 Main St" and the state "NSW".
\<close>

theorem address_example:
  "standardize_address_state
     \<lparr>columns = [''Address'', ''Postcode'', ''Suburb''],
      rows = [[Str ''12 Main St NEW SOUTH WALES 2000'', Str ''2000'', Str ''Sydney'']]\<rparr>
   = Inr \<lparr>columns = [''Address'', ''Postcode'', ''Suburb''],
          rows = [[Str ''12 Main St NSW 2000'', Str ''2000'', Str ''Sydney'']]\<rparr>
   \<and> clean_address fstr resub
        \<lparr>columns = [''Address'', ''Postcode'', ''Suburb''],
         rows = [[Str ''12 Main St NSW 2000'', Str ''2000'', Str ''Sydney'']]\<rparr>
     = Inr \<lparr>columns = [''Address'', ''Postcode'', ''Suburb'', ''State''],
            rows = [[Str ''12 Main St'', Str ''2000'', Str ''Sydney'', Str ''NSW'']]\<rparr>"
  by code_simp

section \<open>Columns of a frame\<close>

lemma index_of_less: "f \<in> set xs \<Longrightarrow> index_of f xs < length xs"
  by (induction xs) auto

lemma index_of_absent: "f \<notin> set xs \<Longrightarrow> index_of f xs = length xs"
  by (induction xs) auto

lemma index_of_neq: "f \<in> set xs \<Longrightarrow> f \<noteq> g \<Longrightarrow> index_of f xs \<noteq> index_of g xs"
  by (induction xs) auto

lemma index_of_append: "f \<in> set xs \<Longrightarrow> index_of f (xs @ ys) = index_of f xs"
  by (induction xs) auto

lemma index_of_append_new: "f \<notin> set xs \<Longrightarrow> index_of f (xs @ [f]) = length xs"
  by (induction xs) auto

lemma length_getcol [simp]: "length (getcol df f) = nrows df"
  by (simp add: getcol_def nrows_def)

lemma columns_setcol:
  "columns (setcol df f vs) = (if f \<in> set (columns df) then columns df else columns df @ [f])"
  by (simp add: setcol_def)

lemma nrows_setcol: "length vs = nrows df \<Longrightarrow> nrows (setcol df f vs) = nrows df"
  by (simp add: setcol_def nrows_def)

lemma wf_rows: "wf df \<Longrightarrow> r \<in> set (rows df) \<Longrightarrow> length r = length (columns df)"
  by (simp add: wf_def)

lemma wf_setcol: "wf df \<Longrightarrow> wf (setcol df f vs)"
  by (auto simp: wf_def setcol_def dest!: set_zip_leftD)

lemma map_zip_snd: "length xs = length ys \<Longrightarrow> (\<And>x y. x \<in> set xs \<Longrightarrow> h x y = y) \<Longrightarrow>
   map (\<lambda>(x, y). h x y) (zip xs ys) = ys"
  by (induction xs ys rule: list_induct2) auto

lemma map_zip_fst: "length xs = length ys \<Longrightarrow> (\<And>x y. x \<in> set xs \<Longrightarrow> h x y = k x) \<Longrightarrow>
   map (\<lambda>(x, y). h x y) (zip xs ys) = map k xs"
  by (induction xs ys rule: list_induct2) auto

lemma getcol_setcol_same:
  assumes "wf df" and "length vs = nrows df"
  shows "getcol (setcol df f vs) f = vs"
proof (cases "f \<in> set (columns df)")
  case True
  have "map (\<lambda>(r, v). (r[index_of f (columns df) := v]) ! index_of f (columns df)) (zip (rows df) vs) = vs"
  proof (rule map_zip_snd)
    show "length (rows df) = length vs" using assms by (simp add: nrows_def)
  next
    fix r v assume "r \<in> set (rows df)"
    with assms True have "index_of f (columns df) < length r"
      by (simp add: wf_def index_of_less)
    then show "(r[index_of f (columns df) := v]) ! index_of f (columns df) = v" by simp
  qed
  with True show ?thesis
    by (simp add: getcol_def setcol_def row_get_def comp_def case_prod_unfold)
next
  case False
  have "map (\<lambda>(r, v). (r @ [v]) ! length (columns df)) (zip (rows df) vs) = vs"
  proof (rule map_zip_snd)
    show "length (rows df) = length vs" using assms by (simp add: nrows_def)
  next
    fix r v assume "r \<in> set (rows df)"
    with assms have "length r = length (columns df)"
      by (simp add: wf_def)
    then show "(r @ [v]) ! length (columns df) = v" by (simp add: nth_append)
  qed
  with False show ?thesis
    by (simp add: getcol_def setcol_def row_get_def comp_def case_prod_unfold index_of_append_new)
qed

lemma getcol_setcol_other:
  assumes "wf df" and "length vs = nrows df" and "g \<in> set (columns df)" and "g \<noteq> f"
  shows "getcol (setcol df f vs) g = getcol df g"
proof (cases "f \<in> set (columns df)")
  case True
  have "map (\<lambda>(r, v). (r[index_of f (columns df) := v]) ! index_of g (columns df)) (zip (rows df) vs)
      = map (\<lambda>r. r ! index_of g (columns df)) (rows df)"
  proof (rule map_zip_fst)
    show "length (rows df) = length vs" using assms by (simp add: nrows_def)
  next
    fix r v assume "r \<in> set (rows df)"
    from assms have "index_of g (columns df) \<noteq> index_of f (columns df)"
      by (simp add: index_of_neq)
    then show "(r[index_of f (columns df) := v]) ! index_of g (columns df) = r ! index_of g (columns df)"
      by simp
  qed
  with True show ?thesis
    by (simp add: getcol_def setcol_def row_get_def comp_def case_prod_unfold)
next
  case False
  have "map (\<lambda>(r, v). (r @ [v]) ! index_of g (columns df)) (zip (rows df) vs)
      = map (\<lambda>r. r ! index_of g (columns df)) (rows df)"
  proof (rule map_zip_fst)
    show "length (rows df) = length vs" using assms by (simp add: nrows_def)
  next
    fix r v assume "r \<in> set (rows df)"
    with assms have "index_of g (columns df) < length r"
      by (simp add: wf_def index_of_less)
    then show "(r @ [v]) ! index_of g (columns df) = r ! index_of g (columns df)"
      by (simp add: nth_append)
  qed
  with False assms show ?thesis
    by (simp add: getcol_def setcol_def row_get_def comp_def case_prod_unfold index_of_append)
qed

section \<open>Date normalisation\<close>



section \<open>Frame properties of the normalisations\<close>

lemma collect_length: "collect xs = Inr vs \<Longrightarrow> length vs = length xs"
  by (induction xs arbitrary: vs) (auto split: sum.splits)

lemma frame_ext_refl: "wf df \<Longrightarrow> frame_ext A df df"
  by (simp add: frame_ext_def)

lemma frame_ext_step:
  assumes "frame_ext A df d" and "length vs = nrows d" and "f \<in> A"
  shows "frame_ext A df (setcol d f vs)"
proof -
  from assms(1) have w: "wf d" and n: "nrows d = nrows df"
    and c: "set (columns df) \<subseteq> set (columns d)"
    and g: "\<And>h. h \<in> set (columns df) \<Longrightarrow> h \<notin> A \<Longrightarrow> getcol d h = getcol df h"
    by (auto simp: frame_ext_def)
  have "getcol (setcol d f vs) h = getcol df h" if "h \<in> set (columns df)" "h \<notin> A" for h
  proof -
    from that c have "h \<in> set (columns d)" by auto
    moreover from that assms(3) have "h \<noteq> f" by auto
    ultimately have "getcol (setcol d f vs) h = getcol d h"
      using w assms(2) by (simp add: getcol_setcol_other)
    with g that show ?thesis by simp
  qed
  moreover have "set (columns df) \<subseteq> set (columns (setcol d f vs))"
    using c by (auto simp: columns_setcol)
  ultimately show ?thesis
    using w n assms(2) by (simp add: frame_ext_def wf_setcol nrows_setcol)
qed

lemma frame_ext_nrows: "frame_ext A df d \<Longrightarrow> nrows d = nrows df"
  by (simp add: frame_ext_def)

lemma frame_ext_getcol:
  "frame_ext A df d \<Longrightarrow> f \<in> set (columns df) \<Longrightarrow> f \<notin> A \<Longrightarrow> getcol d f = getcol df f"
  by (simp add: frame_ext_def)

lemma frame_ext_mono: "frame_ext A df d \<Longrightarrow> A \<subseteq> B \<Longrightarrow> frame_ext B df d"
  by (auto simp: frame_ext_def)

lemma frame_ext_trans:
  assumes "frame_ext A df d" and "frame_ext A d d'"
  shows "frame_ext A df d'"
  using assms by (auto simp: frame_ext_def)

lemma clean_datetime_fields_frame:
  assumes lp: "\<And>xs ts. td xs = Inr ts \<Longrightarrow> length ts = length xs"
  shows "wf df \<Longrightarrow> clean_datetime_fields td df fs = Inr df' \<Longrightarrow>
     frame_ext (set fs) df df' \<and> columns df' = columns df"
proof (induction fs arbitrary: df)
  case Nil
  then show ?case by (simp add: frame_ext_refl)
next
  case (Cons field rest)
  show ?case
  proof (cases "field \<in> set (columns df)")
    case False
    with Cons.prems have "clean_datetime_fields td df rest = Inr df'" by simp
    from Cons.IH [OF Cons.prems(1) this] show ?thesis
      by (auto intro: frame_ext_mono)
  next
    case True
    with Cons.prems(2) obtain ts where ts: "td (getcol df field) = Inr ts"
      and r: "clean_datetime_fields td (setcol df field (map dt_date ts)) rest = Inr df'"
      by (auto split: sum.splits)
    define d where "d = setcol df field (map dt_date ts)"
    have "length ts = length (getcol df field)"
      using ts by (rule lp)
    then have len: "length ts = nrows df"
      by simp
    have fd: "frame_ext (set (field # rest)) df d"
      unfolding d_def
      by (rule frame_ext_step) (simp_all add: frame_ext_refl Cons.prems(1) len)
    then have wd: "wf d" by (simp add: frame_ext_def)
    have cd: "columns d = columns df"
      using True by (simp add: d_def columns_setcol)
    from r have r': "clean_datetime_fields td d rest = Inr df'" by (simp add: d_def)
    from Cons.IH [OF wd r'] have ih: "frame_ext (set rest) d df'"
      and ic: "columns df' = columns d" by auto
    from ih have "frame_ext (set (field # rest)) d df'"
      by (rule frame_ext_mono) auto
    with fd have "frame_ext (set (field # rest)) df df'"
      by (rule frame_ext_trans)
    with ic cd show ?thesis by simp
  qed
qed

lemma standardize_suburb_names_frame:
  assumes "wf df" and "standardize_suburb_names df = Inr df'"
  shows "frame_ext {''Suburb''} df df' \<and> columns df' = columns df"
proof (cases "''Suburb'' \<in> set (columns df)")
  case False
  with assms show ?thesis
    by (simp add: standardize_suburb_names_def frame_ext_refl)
next
  case True
  with assms(2) obtain vs where c: "collect (map title_cell (getcol df ''Suburb'')) = Inr vs"
    and d: "df' = setcol df ''Suburb'' vs"
    by (auto simp: standardize_suburb_names_def split: sum.splits)
  from collect_length [OF c] have "length vs = nrows df" by simp
  with assms(1) True show ?thesis
    unfolding d by (simp add: frame_ext_step frame_ext_refl columns_setcol)
qed

lemma standardize_address_state_frame:
  assumes "wf df" and "standardize_address_state df = Inr df'"
  shows "frame_ext {''Address''} df df' \<and> columns df' = columns df"
proof (cases "''Address'' \<in> set (columns df)")
  case False
  with assms show ?thesis
    by (simp add: standardize_address_state_def frame_ext_refl)
next
  case True
  with assms show ?thesis
    by (auto simp: standardize_address_state_def frame_ext_step frame_ext_refl columns_setcol
        split: if_splits)
qed

lemma clean_address_frame:
  assumes "wf df" and "clean_address fstr resub df = Inr df'"
  shows "frame_ext {''Address'', ''State''} df df'
     \<and> columns df' =
         (if ''Address'' \<in> set (columns df) \<and> ''Postcode'' \<in> set (columns df)
             \<and> ''Suburb'' \<in> set (columns df) \<and> ''State'' \<notin> set (columns df)
          then columns df @ [''State''] else columns df)"
proof (cases "''Address'' \<in> set (columns df) \<and> ''Postcode'' \<in> set (columns df)
         \<and> ''Suburb'' \<in> set (columns df)")
  case False
  with assms show ?thesis
    by (auto simp: clean_address_def frame_ext_refl)
next
  case True
  let ?A = "{''Address'', ''State''}"
  from True assms(2) obtain a1 where
    c1: "collect (map (sub_postcode fstr resub df) (rows df)) = Inr a1"
    by (auto simp: clean_address_def split: if_splits sum.splits)
  define df1 where "df1 = setcol df ''Address'' a1"
  define df2 where "df2 = setcol df1 ''Address'' (map (str_replace pat_comma) (getcol df1 ''Address''))"
  define df3 where "df3 = setcol df2 ''Address'' (map str_strip (getcol df2 ''Address''))"
  define df4 where "df4 = setcol df3 ''State'' (map str_extract (getcol df3 ''Address''))"
  define df5 where "df5 = setcol df4 ''Address'' (map (str_replace pat_state_tail) (getcol df4 ''Address''))"
  define df6 where "df6 = setcol df5 ''Address'' (map str_strip (getcol df5 ''Address''))"
  from True assms(2) c1 obtain a7 where c7: "collect (map (sub_suburb fstr df6) (rows df6)) = Inr a7"
    by (auto simp: clean_address_def Let_def df1_def df2_def df3_def df4_def df5_def df6_def
        split: if_splits sum.splits)
  define df7 where "df7 = setcol df6 ''Address'' a7"
  define df8 where "df8 = setcol df7 ''Address'' (map str_strip (getcol df7 ''Address''))"
  from True assms(2) c1 c7 have r: "df' = df8"
    by (auto simp: clean_address_def Let_def df1_def df2_def df3_def df4_def df5_def df6_def
        df7_def df8_def split: if_splits)
  have l1: "length a1 = nrows df"
    using collect_length [OF c1] by (simp add: nrows_def)
  have f1: "frame_ext ?A df df1"
    unfolding df1_def by (rule frame_ext_step) (simp_all add: frame_ext_refl assms(1) l1)
  have f2: "frame_ext ?A df df2"
    unfolding df2_def by (rule frame_ext_step [OF f1]) simp_all
  have f3: "frame_ext ?A df df3"
    unfolding df3_def by (rule frame_ext_step [OF f2]) simp_all
  have f4: "frame_ext ?A df df4"
    unfolding df4_def by (rule frame_ext_step [OF f3]) simp_all
  have f5: "frame_ext ?A df df5"
    unfolding df5_def by (rule frame_ext_step [OF f4]) simp_all
  have f6: "frame_ext ?A df df6"
    unfolding df6_def by (rule frame_ext_step [OF f5]) simp_all
  have l7: "length a7 = nrows df6"
    using collect_length [OF c7] by (simp add: nrows_def)
  have f7: "frame_ext ?A df df7"
    unfolding df7_def by (rule frame_ext_step [OF f6]) (simp_all add: l7)
  have f8: "frame_ext ?A df df8"
    unfolding df8_def by (rule frame_ext_step [OF f7]) simp_all
  have "columns df8 = (if ''State'' \<in> set (columns df) then columns df else columns df @ [''State''])"
    using True
    by (simp add: df8_def df7_def df6_def df5_def df4_def df3_def df2_def df1_def columns_setcol)
  with f8 True show ?thesis
    unfolding r by auto
qed

text \<open>
  C10, as amended. Each normalisation keeps the number of rows and leaves every column
  it does not name unchanged: date cleaning names the listed fields, suburb title-casing
  names Suburb, state replacement names Address. Address decomposition names Address and
  State: it changes no other column, and its columns are those of the input, with State
  appended when the input has the three required columns and no State column; a State
  column that the input has is overwritten. An operation that raises returns no table.
\<close>

theorem normalisation_frame:
  assumes "wf df" and "\<forall>xs ts. td xs = Inr ts \<longrightarrow> length ts = length xs"
  shows "(\<forall>df'. clean_datetime_fields td df fs = Inr df' \<longrightarrow>
           nrows df' = nrows df \<and> columns df' = columns df
           \<and> (\<forall>f \<in> set (columns df). f \<notin> set fs \<longrightarrow> getcol df' f = getcol df f))
     \<and> (\<forall>df'. standardize_suburb_names df = Inr df' \<longrightarrow>
           nrows df' = nrows df \<and> columns df' = columns df
           \<and> (\<forall>f \<in> set (columns df). f \<noteq> ''Suburb'' \<longrightarrow> getcol df' f = getcol df f))
     \<and> (\<forall>df'. standardize_address_state df = Inr df' \<longrightarrow>
           nrows df' = nrows df \<and> columns df' = columns df
           \<and> (\<forall>f \<in> set (columns df). f \<noteq> ''Address'' \<longrightarrow> getcol df' f = getcol df f))
     \<and> (\<forall>df'. clean_address fstr resub df = Inr df' \<longrightarrow>
           nrows df' = nrows df
           \<and> columns df' =
               (if ''Address'' \<in> set (columns df) \<and> ''Postcode'' \<in> set (columns df)
                   \<and> ''Suburb'' \<in> set (columns df) \<and> ''State'' \<notin> set (columns df)
                then columns df @ [''State''] else columns df)
           \<and> (\<forall>f \<in> set (columns df). f \<noteq> ''Address'' \<and> f \<noteq> ''State'' \<longrightarrow>
                 getcol df' f = getcol df f))"
proof (intro conjI allI impI)
  fix df' assume "clean_datetime_fields td df fs = Inr df'"
  from assms(2) have lp: "length ts = length xs" if "td xs = Inr ts" for xs ts
    using that by blast
  note s = clean_datetime_fields_frame [of td df fs df', OF lp assms(1) \<open>clean_datetime_fields td df fs = Inr df'\<close>]
  show "nrows df' = nrows df" using s by (simp add: frame_ext_def)
  show "columns df' = columns df" using s by simp
  show "\<forall>f \<in> set (columns df). f \<notin> set fs \<longrightarrow> getcol df' f = getcol df f"
    using s by (simp add: frame_ext_def)
next
  fix df' assume "standardize_suburb_names df = Inr df'"
  note s = standardize_suburb_names_frame [OF assms(1) this]
  show "nrows df' = nrows df" using s by (simp add: frame_ext_def)
  show "columns df' = columns df" using s by simp
  show "\<forall>f \<in> set (columns df). f \<noteq> ''Suburb'' \<longrightarrow> getcol df' f = getcol df f"
    using s by (simp add: frame_ext_def)
next
  fix df' assume "standardize_address_state df = Inr df'"
  note s = standardize_address_state_frame [OF assms(1) this]
  show "nrows df' = nrows df" using s by (simp add: frame_ext_def)
  show "columns df' = columns df" using s by simp
  show "\<forall>f \<in> set (columns df). f \<noteq> ''Address'' \<longrightarrow> getcol df' f = getcol df f"
    using s by (simp add: frame_ext_def)
next
  fix df' assume "clean_address fstr resub df = Inr df'"
  note s = clean_address_frame [OF assms(1) this]
  show "nrows df' = nrows df" using s by (simp add: frame_ext_def)
  show "columns df' =
      (if ''Address'' \<in> set (columns df) \<and> ''Postcode'' \<in> set (columns df)
          \<and> ''Suburb'' \<in> set (columns df) \<and> ''State'' \<notin> set (columns df)
       then columns df @ [''State''] else columns df)"
    using s by simp
  show "\<forall>f \<in> set (columns df). f \<noteq> ''Address'' \<and> f \<noteq> ''State'' \<longrightarrow> getcol df' f = getcol df f"
    using s by (simp add: frame_ext_def)
qed

theorem normalisation_frame_witness:
  "wf sample_frame
   \<and> clean_datetime_fields to_datetime_observed sample_frame [''PriceUpdatedDate'']
       = Inr sample_dated
   \<and> nrows sample_dated = nrows sample_frame
   \<and> getcol sample_dated ''Address'' = getcol sample_frame ''Address''
   \<and> clean_address no_floats no_special sample_frame = Inr sample_cleaned
   \<and> nrows sample_cleaned = nrows sample_frame
   \<and> columns sample_cleaned = columns sample_frame @ [''State'']
   \<and> getcol sample_cleaned ''Postcode'' = getcol sample_frame ''Postcode''
   \<and> getcol sample_cleaned ''Suburb'' = getcol sample_frame ''Suburb''
   \<and> getcol sample_cleaned ''PriceUpdatedDate'' = getcol sample_frame ''PriceUpdatedDate''"
proof -
  have w: "wf sample_frame"
    by (simp add: wf_def sample_frame_def)
  have l: "\<forall>xs ts. to_datetime_observed xs = Inr ts \<longrightarrow> length ts = length xs"
    by (auto simp: to_datetime_observed_def split: if_splits)
  have d: "clean_datetime_fields to_datetime_observed sample_frame [''PriceUpdatedDate'']
      = Inr sample_dated"
    by code_simp
  have h: "clean_address no_floats no_special sample_frame = Inr sample_cleaned"
    by code_simp
  note t = normalisation_frame
    [of sample_frame to_datetime_observed "[''PriceUpdatedDate'']" no_floats no_special, OF w l]
  have c: "columns sample_frame = [''Address'', ''Postcode'', ''Suburb'', ''PriceUpdatedDate'']"
    by (simp add: sample_frame_def)
  note b = t [THEN conjunct1, THEN spec, THEN mp, OF d]
  note b1 = b [THEN conjunct1]
  from b [THEN conjunct2, THEN conjunct2] c
  have b2: "getcol sample_dated ''Address'' = getcol sample_frame ''Address''" by simp
  note a = t [THEN conjunct2, THEN conjunct2, THEN conjunct2, THEN spec, THEN mp, OF h]
  from a have a1: "nrows sample_cleaned = nrows sample_frame" by simp
  from a c have a2: "columns sample_cleaned = columns sample_frame @ [''State'']" by simp
  from a c have a3: "getcol sample_cleaned ''Postcode'' = getcol sample_frame ''Postcode''" by simp
  from a c have a4: "getcol sample_cleaned ''Suburb'' = getcol sample_frame ''Suburb''" by simp
  from a c have a5: "getcol sample_cleaned ''PriceUpdatedDate'' = getcol sample_frame ''PriceUpdatedDate''"
    by simp
  from w d b1 b2 h a1 a2 a3 a4 a5 show ?thesis
    by (intro conjI)
qed

text \<open>
  The claim as stated fails: address decomposition does not modify the Address column
  only. A table that has a State column keeps its columns and has the State cells
  overwritten.
\<close>

theorem clean_address_overwrites_state:
  "clean_address no_floats no_special
     \<lparr>columns = [''Address'', ''Postcode'', ''Suburb'', ''State''],
      rows = [[Str ''12 Main St NSW 2000'', Str ''2000'', Str ''Sydney'', Str ''QLD'']]\<rparr>
   = Inr \<lparr>columns = [''Address'', ''Postcode'', ''Suburb'', ''State''],
          rows = [[Str ''12 Main St'', Str ''2000'', Str ''Sydney'', Str ''NSW'']]\<rparr>
   \<and> getcol \<lparr>columns = [''Address'', ''Postcode'', ''Suburb'', ''State''],
          rows = [[Str ''12 Main St'', Str ''2000'', Str ''Sydney'', Str ''NSW'']]\<rparr> ''State''
     \<noteq> getcol \<lparr>columns = [''Address'', ''Postcode'', ''Suburb'', ''State''],
          rows = [[Str ''12 Main St NSW 2000'', Str ''2000'', Str ''Sydney'', Str ''QLD'']]\<rparr>
         ''State''"
  by code_simp

section \<open>The state patterns on a trimmed text\<close>

lemma find_upt_Some:
  "find P [0..<m] = Some i \<longleftrightarrow> i < m \<and> P i \<and> (\<forall>j<i. \<not> P j)"
  by (auto simp: find_Some_iff)

lemma find_upt_None: "find P [0..<m] = None \<longleftrightarrow> (\<forall>i<m. \<not> P i)"
  by (auto simp: find_None_iff)

lemma fm_star_iff:
  "fm (Star c # p) s \<longleftrightarrow> (\<exists>k\<le>length s. list_all c (take k s) \<and> fm p (drop k s))"
proof (induction s)
  case Nil
  show ?case by simp
next
  case (Cons x xs)
  show ?case
  proof
    assume "fm (Star c # p) (x # xs)"
    then consider "c x" "fm (Star c # p) xs" | "fm p (x # xs)" by auto
    then show "\<exists>k\<le>length (x # xs). list_all c (take k (x # xs)) \<and> fm p (drop k (x # xs))"
    proof cases
      case 1
      with Cons obtain k where "k \<le> length xs" "list_all c (take k xs)" "fm p (drop k xs)" by auto
      with 1 show ?thesis by (intro exI [of _ "Suc k"]) simp
    next
      case 2
      then show ?thesis by (intro exI [of _ 0]) simp
    qed
  next
    assume "\<exists>k\<le>length (x # xs). list_all c (take k (x # xs)) \<and> fm p (drop k (x # xs))"
    then obtain k where k: "k \<le> length (x # xs)" "list_all c (take k (x # xs))" "fm p (drop k (x # xs))"
      by blast
    show "fm (Star c # p) (x # xs)"
    proof (cases k)
      case 0
      with k show ?thesis by simp
    next
      case (Suc k')
      with k have "c x" "k' \<le> length xs" "list_all c (take k' xs)" "fm p (drop k' xs)" by auto
      with Cons show ?thesis by auto
    qed
  qed
qed

lemma fm_plus_iff:
  "fm (Plus c # p) s \<longleftrightarrow> (\<exists>k\<le>length s. 0 < k \<and> list_all c (take k s) \<and> fm p (drop k s))"
proof (cases s)
  case Nil
  then show ?thesis by simp
next
  case (Cons x xs)
  show ?thesis
  proof
    assume "fm (Plus c # p) s"
    with Cons have "c x" "fm (Star c # p) xs" by auto
    then obtain k where "k \<le> length xs" "list_all c (take k xs)" "fm p (drop k xs)"
      by (auto simp: fm_star_iff)
    with \<open>c x\<close> Cons show "\<exists>k\<le>length s. 0 < k \<and> list_all c (take k s) \<and> fm p (drop k s)"
      by (intro exI [of _ "Suc k"]) simp
  next
    assume "\<exists>k\<le>length s. 0 < k \<and> list_all c (take k s) \<and> fm p (drop k s)"
    then obtain k where k: "k \<le> length s" "0 < k" "list_all c (take k s)" "fm p (drop k s)" by blast
    then obtain k' where "k = Suc k'" by (cases k) auto
    with k Cons have "c x" "k' \<le> length xs" "list_all c (take k' xs)" "fm p (drop k' xs)" by auto
    then have "fm (Star c # p) xs" by (auto simp: fm_star_iff)
    with \<open>c x\<close> Cons show "fm (Plus c # p) s" by simp
  qed
qed

lemma fm_one_iff: "fm (One c # p) s \<longleftrightarrow> s \<noteq> [] \<and> c (hd s) \<and> fm p (tl s)"
  by (cases s) auto

lemma fm_star_end: "fm [Star c] s \<longleftrightarrow> list_all c s"
  by (induction s) auto

lemma fm_state_iff:
  "fm pat_state t \<longleftrightarrow> 3 \<le> length t \<and> list_all is_word (take 3 t) \<and> list_all is_space (drop 3 t)"
proof (cases t)
  case Nil
  then show ?thesis by (simp add: pat_state_def)
next
  case t1: (Cons x1 t1)
  show ?thesis
  proof (cases t1)
    case Nil
    with t1 show ?thesis by (simp add: pat_state_def)
  next
    case t2: (Cons x2 t2)
    show ?thesis
    proof (cases t2)
      case Nil
      with t1 t2 show ?thesis by (simp add: pat_state_def)
    next
      case (Cons x3 t3)
      with t1 t2 show ?thesis by (simp add: pat_state_def fm_star_end)
    qed
  qed
qed

lemma strip_no_trailing: "strip b \<noteq> [] \<Longrightarrow> \<not> is_space (last (strip b))"
proof -
  assume a: "strip b \<noteq> []"
  let ?r = "dropWhile is_space (rev (dropWhile is_space b))"
  from a have "?r \<noteq> []" by (simp add: strip_def)
  then have "\<not> is_space (hd ?r)" by (rule hd_dropWhile)
  with \<open>?r \<noteq> []\<close> show ?thesis by (simp add: strip_def last_rev)
qed

lemma strip_no_leading: "strip b \<noteq> [] \<Longrightarrow> \<not> is_space (hd (strip b))"
proof -
  assume a: "strip b \<noteq> []"
  let ?d = "dropWhile is_space b"
  let ?r = "dropWhile is_space (rev ?d)"
  from a have r: "?r \<noteq> []" by (simp add: strip_def)
  have d: "?d \<noteq> []"
  proof
    assume "?d = []"
    then have "?r = []" by (simp del: dropWhile_eq_Nil_conv)
    with r show False by (simp del: dropWhile_eq_Nil_conv)
  qed
  then have h: "\<not> is_space (hd ?d)" by (rule hd_dropWhile)
  have "rev ?d = takeWhile is_space (rev ?d) @ ?r" by simp
  then have "?d = rev ?r @ rev (takeWhile is_space (rev ?d))"
    by (metis rev_append rev_rev_ident)
  with r have "hd ?d = hd (rev ?r)" by (metis hd_append2 rev_is_Nil_conv)
  with h show ?thesis by (simp add: strip_def)
qed


lemma search_state:
  assumes "a = [] \<or> \<not> is_space (last a)"
  shows "re_search_tail pat_state a =
     (if 3 \<le> length a \<and> list_all is_word (drop (length a - 3) a)
      then Some (length a - 3) else None)"
proof -
  let ?n = "length a"
  let ?P = "\<lambda>i. fm pat_state (drop i a)"
  have P_iff: "?P i \<longleftrightarrow> 3 \<le> ?n \<and> i = ?n - 3 \<and> list_all is_word (drop (?n - 3) a)" for i
  proof
    assume "?P i"
    then have l: "3 \<le> ?n - i" and w: "list_all is_word (take 3 (drop i a))"
      and s: "list_all is_space (drop (i + 3) a)"
      by (simp_all add: fm_state_iff add.commute)
    have "i + 3 = ?n"
    proof (rule ccontr)
      assume "i + 3 \<noteq> ?n"
      with l have lt: "i + 3 < ?n" by simp
      then have ne: "drop (i + 3) a \<noteq> []" "a \<noteq> []" by auto
      then have "last (drop (i + 3) a) = last a" using lt by simp
      moreover from ne s have "is_space (last (drop (i + 3) a))"
        by (metis last_in_set list_all_iff)
      ultimately show False using assms ne by simp
    qed
    then have i: "i = ?n - 3" and "3 \<le> ?n" by auto
    with w show "3 \<le> ?n \<and> i = ?n - 3 \<and> list_all is_word (drop (?n - 3) a)" by simp
  next
    assume "3 \<le> ?n \<and> i = ?n - 3 \<and> list_all is_word (drop (?n - 3) a)"
    then show "?P i" by (simp add: fm_state_iff)
  qed
  show ?thesis
  proof (cases "3 \<le> ?n \<and> list_all is_word (drop (?n - 3) a)")
    case True
    then have "find ?P [0..<Suc ?n] = Some (?n - 3)"
      unfolding find_upt_Some using P_iff by auto
    with True show ?thesis by (simp add: re_search_tail_def del: upt_Suc)
  next
    case False
    then have "find ?P [0..<Suc ?n] = None"
      unfolding find_upt_None using P_iff by auto
    with False show ?thesis by (simp add: re_search_tail_def del: upt_Suc)
  qed
qed

lemma rstrip_split:
  "u = rev (dropWhile c (rev u)) @ rev (takeWhile c (rev u))"
  by (metis rev_append rev_rev_ident takeWhile_dropWhile_id)

lemma all_drop_rstrip:
  assumes "j < length u"
  shows "list_all c (drop j u) \<longleftrightarrow> length (dropWhile c (rev u)) \<le> j"
proof -
  let ?r = "rev (dropWhile c (rev u))"
  let ?w = "rev (takeWhile c (rev u))"
  have u: "u = ?r @ ?w" by (rule rstrip_split)
  have w: "list_all c ?w"
    by (simp add: list_all_iff) (meson set_takeWhileD)
  show ?thesis
  proof (cases "length ?r \<le> j")
    case True
    then have "drop j u = drop (j - length ?r) ?w"
      by (subst u) simp
    moreover have "list_all c (drop (j - length ?r) ?w)"
      using w by (auto simp: list_all_iff dest: in_set_dropD)
    ultimately show ?thesis using True by simp
  next
    case False
    then have lt: "j < length ?r" by simp
    have ne: "dropWhile c (rev u) \<noteq> []"
    proof
      assume "dropWhile c (rev u) = []"
      with lt show False by (simp del: dropWhile_eq_Nil_conv)
    qed
    then have "\<not> c (hd (dropWhile c (rev u)))" by (rule hd_dropWhile)
    with ne have nl: "\<not> c (last ?r)" by (simp add: last_rev)
    from lt have "last ?r \<in> set (drop j ?r)"
      by (metis drop_eq_Nil last_drop last_in_set not_le)
    moreover have "drop j u = drop j ?r @ ?w"
      using lt by (subst u) simp
    ultimately have "last ?r \<in> set (drop j u)" by simp
    with nl have "\<not> list_all c (drop j u)" by (auto simp: list_all_iff)
    with False show ?thesis by simp
  qed
qed

lemma length_dropWhile_less: "length (dropWhile c xs) < length xs \<longleftrightarrow> xs \<noteq> [] \<and> c (hd xs)"
proof (cases xs)
  case Nil
  then show ?thesis by simp
next
  case (Cons x ys)
  have "length (dropWhile c ys) \<le> length ys" by (rule length_dropWhile_le)
  with Cons show ?thesis by auto
qed


lemma fm_state_drop:
  assumes "a = [] \<or> \<not> is_space (last a)"
  shows "fm pat_state (drop i a) \<longleftrightarrow>
     3 \<le> length a \<and> i = length a - 3 \<and> list_all is_word (drop (length a - 3) a)"
proof
  let ?n = "length a"
  assume "fm pat_state (drop i a)"
  then have l: "3 \<le> ?n - i" and w: "list_all is_word (take 3 (drop i a))"
    and s: "list_all is_space (drop (i + 3) a)"
    by (simp_all add: fm_state_iff add.commute)
  have "i + 3 = ?n"
  proof (rule ccontr)
    assume "i + 3 \<noteq> ?n"
    with l have lt: "i + 3 < ?n" by simp
    then have ne: "drop (i + 3) a \<noteq> []" "a \<noteq> []" by auto
    then have "last (drop (i + 3) a) = last a" using lt by simp
    moreover from ne s have "is_space (last (drop (i + 3) a))"
      by (metis last_in_set list_all_iff)
    ultimately show False using assms ne by simp
  qed
  then have i: "i = ?n - 3" and "3 \<le> ?n" by auto
  with w show "3 \<le> ?n \<and> i = ?n - 3 \<and> list_all is_word (drop (?n - 3) a)" by simp
next
  assume "3 \<le> length a \<and> i = length a - 3 \<and> list_all is_word (drop (length a - 3) a)"
  then show "fm pat_state (drop i a)" by (simp add: fm_state_iff)
qed

lemma pat_state_tail_eq: "pat_state_tail = Plus is_space # pat_state"
  by (simp add: pat_state_tail_def pat_state_def)

lemma sub_state_tail:
  assumes "a = [] \<or> \<not> is_space (last a)"
  shows "re_sub_tail pat_state_tail a =
     (if 4 \<le> length a \<and> list_all is_word (drop (length a - 3) a)
         \<and> is_space (a ! (length a - 4))
      then rev (dropWhile is_space (rev (take (length a - 3) a))) else a)"
proof -
  define n where "n = length a"
  define u where "u = take (n - 3) a"
  define r where "r = rev (dropWhile is_space (rev u))"
  let ?W = "3 \<le> n \<and> list_all is_word (drop (n - 3) a)"
  let ?P = "\<lambda>j. fm pat_state_tail (drop j a)"
  have lu: "length u = n - 3"
    by (simp add: u_def n_def)
  have st: "fm pat_state (drop i a) \<longleftrightarrow> 3 \<le> n \<and> i = n - 3 \<and> list_all is_word (drop (n - 3) a)" for i
    unfolding n_def by (rule fm_state_drop [OF assms])
  have sp: "list_all is_space (drop j u) \<longleftrightarrow> length r \<le> j" if "j < n - 3" for j
    using that lu by (simp add: r_def all_drop_rstrip)
  have P_iff: "?P j \<longleftrightarrow> ?W \<and> length r \<le> j \<and> j < n - 3" for j
  proof
    assume "?P j"
    then obtain k where k: "k \<le> n - j" "0 < k" "list_all is_space (take k (drop j a))"
      "fm pat_state (drop (j + k) a)"
      by (auto simp: pat_state_tail_eq fm_plus_iff add.commute n_def)
    from k(4) have W: "?W" and e: "j + k = n - 3"
      by (simp_all add: st)
    from e k(2) have lt: "j < n - 3" by simp
    from e have "k = n - 3 - j" by simp
    then have "take k (drop j a) = drop j u"
      by (simp add: drop_take u_def)
    with k(3) have "list_all is_space (drop j u)" by simp
    with lt have "length r \<le> j"
      by (simp add: sp)
    with W lt show "?W \<and> length r \<le> j \<and> j < n - 3" by simp
  next
    assume h: "?W \<and> length r \<le> j \<and> j < n - 3"
    then have s1: "list_all is_space (drop j u)"
      by (simp add: sp)
    have s2: "drop j u = take (n - 3 - j) (drop j a)"
      by (simp add: drop_take u_def)
    from h have s3: "j + (n - 3 - j) = n - 3" by arith
    from h have "fm pat_state (drop (n - 3) a)"
      by (simp add: st)
    with s3 have s4: "fm pat_state (drop (n - 3 - j) (drop j a))"
      by (simp add: add.commute)
    from h have s5: "0 < n - 3 - j" "n - 3 - j \<le> length (drop j a)" by (auto simp: n_def)
    show "?P j"
      unfolding pat_state_tail_eq fm_plus_iff
      using s1 s2 s4 s5 by (intro exI [of _ "n - 3 - j"]) simp
  qed
  have lr: "length r < n - 3 \<longleftrightarrow> 4 \<le> n \<and> is_space (a ! (n - 4))" if "3 \<le> n"
  proof -
    have 1: "length r < length u \<longleftrightarrow> u \<noteq> [] \<and> is_space (last u)"
      using length_dropWhile_less [of is_space "rev u"] by (simp add: r_def hd_rev)
    have 2: "u \<noteq> [] \<longleftrightarrow> 4 \<le> n"
      using lu by (cases u) auto
    have 3: "last u = a ! (n - 4)" if "4 \<le> n"
    proof -
      from that 2 have "u \<noteq> []" by simp
      then have "last u = u ! (length u - 1)" by (rule last_conv_nth)
      also have "\<dots> = a ! (n - 4)" using that by (simp add: lu) (simp add: u_def)
      finally show ?thesis .
    qed
    show ?thesis using 1 2 3 lu by metis
  qed
  have tk: "take (length r) a = r"
  proof -
    define w where "w = rev (takeWhile is_space (rev u))"
    define t where "t = drop (n - 3) a"
    have a1: "u @ t = a" by (simp add: u_def t_def)
    have a2: "r @ w = u"
      unfolding r_def w_def by (rule rstrip_split [symmetric])
    from a1 a2 have e: "r @ (w @ t) = a" by (metis append.assoc)
    have "take (length r) (r @ (w @ t)) = r" by simp
    then show ?thesis
      by (simp only: e)
  qed
  have "re_sub_tail pat_state_tail a =
     (if 4 \<le> n \<and> list_all is_word (drop (n - 3) a) \<and> is_space (a ! (n - 4)) then r else a)"
  proof (cases "?W \<and> length r < n - 3")
    case True
    have f: "find ?P [0..<Suc n] = Some (length r)"
      unfolding find_upt_Some
    proof (intro conjI allI impI)
      show "length r < Suc n" using True by arith
      show "?P (length r)" using True by (simp add: P_iff)
      fix j assume "j < length r"
      then show "\<not> ?P j" by (simp add: P_iff)
    qed
    from True lr have "4 \<le> n \<and> list_all is_word (drop (n - 3) a) \<and> is_space (a ! (n - 4))"
      by simp
    moreover from f tk have "re_sub_tail pat_state_tail a = r"
      by (simp add: re_sub_tail_def re_search_tail_def n_def [symmetric] del: upt_Suc)
    ultimately show ?thesis
      by simp
  next
    case False
    have f: "find ?P [0..<Suc n] = None"
      unfolding find_upt_None
    proof (intro allI impI)
      fix i assume "i < Suc n"
      from False show "\<not> ?P i" by (auto simp: P_iff)
    qed
    from False lr have "\<not> (4 \<le> n \<and> list_all is_word (drop (n - 3) a)
         \<and> is_space (a ! (n - 4)))" by auto
    moreover from f have "re_sub_tail pat_state_tail a = a"
      by (simp add: re_sub_tail_def re_search_tail_def n_def [symmetric] del: upt_Suc)
    ultimately show ?thesis
      by auto
  qed
  then show ?thesis
    by (simp add: r_def u_def n_def)
qed


lemma strip_Nil [simp]: "strip [] = []"
  by (simp add: strip_def)

lemma strip_stripped: "strip b = [] \<or> \<not> is_space (last (strip b))"
  using strip_no_trailing by blast

lemma strip_id:
  assumes "s = [] \<or> (\<not> is_space (hd s) \<and> \<not> is_space (last s))"
  shows "strip s = s"
proof (cases "s = []")
  case True
  then show ?thesis by simp
next
  case False
  with assms have h: "\<not> is_space (hd s)" and l: "\<not> is_space (last s)" by auto
  from False h have "dropWhile is_space s = s" by (cases s) auto
  moreover from False l have "dropWhile is_space (rev s) = rev s"
    by (cases "rev s") (auto simp: last_rev [symmetric] hd_rev)
  ultimately show ?thesis by (simp add: strip_def)
qed

lemma strip_idem: "strip (strip b) = strip b"
proof (cases "strip b = []")
  case True
  then show ?thesis by simp
next
  case False
  then show ?thesis
    by (intro strip_id disjI2 conjI strip_no_leading strip_no_trailing)
qed

lemma str_extract_stripped:
  "str_extract (Str (strip b)) = last3_state (strip b)"
proof -
  let ?a = "strip b"
  have "re_search_tail pat_state ?a =
     (if 3 \<le> length ?a \<and> list_all is_word (drop (length ?a - 3) ?a)
      then Some (length ?a - 3) else None)"
    by (rule search_state) (rule strip_stripped)
  then show ?thesis
    by (simp add: str_extract_def last3_state_def)
qed

lemma str_replace_tail_stripped:
  "str_replace pat_state_tail (Str (strip b)) = Str (last3_removed (strip b))"
  unfolding str_replace_def last3_removed_def
  using sub_state_tail [of "strip b", OF strip_stripped] by simp

end
